theory Spec2Isabelle
  imports Main "HOL-Library.Multiset"
begin

section \<open>Character sets\<close>

text \<open>
  The four alphabets of Python's \<open>string\<close> module that \<open>CHAR_SETS\<close> binds:
  \<open>ascii_uppercase\<close>, \<open>ascii_lowercase\<close>, \<open>digits\<close> and \<open>punctuation\<close>
  (the 32 printable ASCII symbols, in the order of their codes).
\<close>

definition ascii_uppercase :: string where
  "ascii_uppercase = ''ABCDEFGHIJKLMNOPQRSTUVWXYZ''"

definition ascii_lowercase :: string where
  "ascii_lowercase = ''abcdefghijklmnopqrstuvwxyz''"

definition digits :: string where
  "digits = ''0123456789''"

definition punctuation :: string where
  "punctuation =
     [CHR 0x21, CHR 0x22, CHR 0x23, CHR 0x24, CHR 0x25, CHR 0x26, CHR 0x27, CHR 0x28,
      CHR 0x29, CHR 0x2A, CHR 0x2B, CHR 0x2C, CHR 0x2D, CHR 0x2E, CHR 0x2F,
      CHR 0x3A, CHR 0x3B, CHR 0x3C, CHR 0x3D, CHR 0x3E, CHR 0x3F, CHR 0x40,
      CHR 0x5B, CHR 0x5C, CHR 0x5D, CHR 0x5E, CHR 0x5F, CHR 0x60,
      CHR 0x7B, CHR 0x7C, CHR 0x7D, CHR 0x7E]"

text \<open>The dictionary \<open>CHAR_SETS\<close>, keyed by the class name.\<close>

definition CHAR_SETS :: "string \<rightharpoonup> string" where
  "CHAR_SETS =
     [''uppercase'' \<mapsto> ascii_uppercase,
      ''lowercase'' \<mapsto> ascii_lowercase,
      ''digits'' \<mapsto> digits,
      ''special_chars'' \<mapsto> punctuation]"

section \<open>The random source\<close>

text \<open>
  The process-wide generator of Python's \<open>random\<close> module is an explicit state of any
  type \<open>'s\<close>. Its one primitive, \<open>_randbelow n\<close>, is a parameter \<open>rb\<close> of every
  function that draws: it takes the state and returns an index and the next state.
  The library promises an index below \<open>n\<close> for positive \<open>n\<close>; that promise is
  \<open>rb_ok\<close>.
\<close>

type_synonym 's randbelow = "nat \<Rightarrow> 's \<Rightarrow> nat \<times> 's"

definition rb_ok :: "'s randbelow \<Rightarrow> bool" where
  "rb_ok rb \<longleftrightarrow> (\<forall>n s. 0 < n \<longrightarrow> fst (rb n s) < n)"

text \<open>
  \<open>random.choice(seq)\<close> is \<open>seq[_randbelow(len(seq))]\<close>. The library raises
  IndexError for an empty \<open>seq\<close>; every sequence \<open>generate_password\<close> passes is
  a non-empty alphabet or the non-empty pool (\<open>alphabets_nonempty\<close>,
  \<open>char_pool_nonempty\<close> below), so that branch is never taken and is not modelled.
\<close>

definition choice :: "'s randbelow \<Rightarrow> 'a list \<Rightarrow> 's \<Rightarrow> 'a \<times> 's" where
  "choice rb seq s = (case rb (length seq) s of (i, s') \<Rightarrow> (seq ! i, s'))"

text \<open>
  \<open>random.shuffle(x)\<close> walks \<open>i\<close> from \<open>len(x) - 1\<close> down to \<open>1\<close>, draws
  \<open>j = _randbelow(i + 1)\<close> and exchanges \<open>x[i]\<close> with \<open>x[j]\<close>.
\<close>

definition shuffle_step :: "'s randbelow \<Rightarrow> nat \<Rightarrow> 'a list \<times> 's \<Rightarrow> 'a list \<times> 's" where
  "shuffle_step rb i xs =
     (case xs of (x, s) \<Rightarrow>
        (case rb (i + 1) s of (j, s') \<Rightarrow> (x[i := x ! j, j := x ! i], s')))"

definition shuffle :: "'s randbelow \<Rightarrow> 'a list \<Rightarrow> 's \<Rightarrow> 'a list \<times> 's" where
  "shuffle rb x s = fold (shuffle_step rb) (rev [1..<length x]) (x, s)"

text \<open>
  The comprehension \<open>[random.choice(seq) for _ in range(k)]\<close>: \<open>k\<close> draws in order.
\<close>

fun choices :: "'s randbelow \<Rightarrow> 'a list \<Rightarrow> nat \<Rightarrow> 's \<Rightarrow> 'a list \<times> 's" where
  "choices rb seq 0 s = ([], s)"
| "choices rb seq (Suc k) s =
     (case choice rb seq s of (c, s') \<Rightarrow>
        (case choices rb seq k s' of (cs, s'') \<Rightarrow> (c # cs, s'')))"

section \<open>Password generation\<close>

definition length_error :: string where
  "length_error = ''Error: Length too short for selected strength.''"

text \<open>
  The first half of \<open>generate_password\<close>: the branch on \<open>strength\<close> that
  builds \<open>all_chars\<close> and draws \<open>guaranteed_chars\<close>. A strength that is none of the
  three names falls through every branch.
\<close>

definition char_pool :: "'s randbelow \<Rightarrow> string \<Rightarrow> 's \<Rightarrow> string \<times> string \<times> 's" where
  "char_pool rb strength s0 =
     (let all_chars = the (CHAR_SETS ''uppercase'') @ the (CHAR_SETS ''lowercase'') in
      if strength = ''low'' then (all_chars, [], s0)
      else if strength = ''medium'' then
        (case choice rb (the (CHAR_SETS ''uppercase'')) s0 of (c1, s1) \<Rightarrow>
         case choice rb (the (CHAR_SETS ''lowercase'')) s1 of (c2, s2) \<Rightarrow>
         case choice rb (the (CHAR_SETS ''digits'')) s2 of (c3, s3) \<Rightarrow>
           (all_chars @ the (CHAR_SETS ''digits''), [c1, c2, c3], s3))
      else if strength = ''high'' then
        (case choice rb (the (CHAR_SETS ''uppercase'')) s0 of (c1, s1) \<Rightarrow>
         case choice rb (the (CHAR_SETS ''lowercase'')) s1 of (c2, s2) \<Rightarrow>
         case choice rb (the (CHAR_SETS ''digits'')) s2 of (c3, s3) \<Rightarrow>
         case choice rb (the (CHAR_SETS ''special_chars'')) s3 of (c4, s4) \<Rightarrow>
           (all_chars @ the (CHAR_SETS ''digits'') @ the (CHAR_SETS ''special_chars''),
            [c1, c2, c3, c4], s4))
      else (all_chars, [], s0))"

text \<open>
  \<open>generate_password(length, strength)\<close>, with the generator state threaded through.
  The result is the returned Python string (a password or the error message) and the
  state the generator is left in.
\<close>

definition generate_password :: "'s randbelow \<Rightarrow> int \<Rightarrow> string \<Rightarrow> 's \<Rightarrow> string \<times> 's" where
  "generate_password rb len strength s0 =
     (case char_pool rb strength s0 of (all_chars, guaranteed_chars, s1) \<Rightarrow>
        if int (length guaranteed_chars) > len then (length_error, s1)
        else
          let remaining_length = len - int (length guaranteed_chars);
              remaining_length = (if remaining_length < 0 then 0 else remaining_length)
          in case choices rb all_chars (nat remaining_length) s1 of (random_chars, s2) \<Rightarrow>
               shuffle rb (guaranteed_chars @ random_chars) s2)"

section \<open>Vocabulary of the specification\<close>

text \<open>
  The classes that receive one guaranteed draw each, in the order of the draws, and the
  classes whose alphabets make up \<open>all_chars\<close>, both read off the branches of
  \<open>generate_password\<close>. The fall-through of an unknown strength is the last case.
\<close>

definition guaranteed_classes :: "string \<Rightarrow> string list" where
  "guaranteed_classes strength =
     (if strength = ''medium'' then [''uppercase'', ''lowercase'', ''digits'']
      else if strength = ''high'' then [''uppercase'', ''lowercase'', ''digits'', ''special_chars'']
      else [])"

definition universe_classes :: "string \<Rightarrow> string list" where
  "universe_classes strength =
     (if strength = ''medium'' then [''uppercase'', ''lowercase'', ''digits'']
      else if strength = ''high'' then [''uppercase'', ''lowercase'', ''digits'', ''special_chars'']
      else [''uppercase'', ''lowercase''])"

text \<open>
  \<open>universe\<close> is the union of the alphabets of the contributing classes.
\<close>

definition universe :: "string \<Rightarrow> char set" where
  "universe strength = (\<Union>k \<in> set (universe_classes strength). set (the (CHAR_SETS k)))"

text \<open>
  The response shapes the specification names. The code returns a Python string on every
  path; \<open>as_password_result\<close> reads that string the only way a caller can: the
  message of the length check is the failure, anything else is a password.
\<close>

datatype error_kind = InsufficientLength | InvalidLength

datatype password_result = Password string | Rejected error_kind

definition as_password_result :: "string \<Rightarrow> password_result" where
  "as_password_result r = (if r = length_error then Rejected InsufficientLength else Password r)"

section \<open>Instrumented and concrete generators\<close>

text \<open>
  \<open>counting rb\<close> is the generator \<open>rb\<close> with a tally of the calls made to it
  beside its state; running the same code over it counts the draws.
  \<open>counter_rng\<close> is a small deterministic generator for concrete runs.
\<close>

definition counting :: "'s randbelow \<Rightarrow> ('s \<times> nat) randbelow" where
  "counting rb n sk = (case sk of (s, k) \<Rightarrow> (case rb n s of (i, s') \<Rightarrow> (i, (s', Suc k))))"

definition counter_rng :: "nat randbelow" where
  "counter_rng n s = ((7 * s + 3) mod n, Suc s)"

section \<open>Facts about the random primitives\<close>

lemma CHAR_SETS_uppercase: "the (CHAR_SETS ''uppercase'') = ascii_uppercase"
  by (simp add: CHAR_SETS_def)

lemma CHAR_SETS_lowercase: "the (CHAR_SETS ''lowercase'') = ascii_lowercase"
  by (simp add: CHAR_SETS_def)

lemma CHAR_SETS_digits: "the (CHAR_SETS ''digits'') = digits"
  by (simp add: CHAR_SETS_def)

lemma CHAR_SETS_special_chars: "the (CHAR_SETS ''special_chars'') = punctuation"
  by (simp add: CHAR_SETS_def)

lemmas CHAR_SETS_at =
  CHAR_SETS_uppercase CHAR_SETS_lowercase CHAR_SETS_digits CHAR_SETS_special_chars

lemma alphabets_nonempty:
  "ascii_uppercase \<noteq> []" "ascii_lowercase \<noteq> []" "digits \<noteq> []" "punctuation \<noteq> []"
  by (simp_all add: ascii_uppercase_def ascii_lowercase_def digits_def punctuation_def)

lemma rb_okD: "rb_ok rb \<Longrightarrow> 0 < n \<Longrightarrow> fst (rb n s) < n"
  by (simp add: rb_ok_def)

lemma choice_mem:
  assumes "rb_ok rb" and "seq \<noteq> []"
  shows "fst (choice rb seq s) \<in> set seq"
proof -
  have "fst (rb (length seq) s) < length seq"
    using assms by (simp add: rb_okD)
  then show ?thesis
    by (simp add: choice_def case_prod_beta)
qed

lemma choices_length: "length (fst (choices rb seq k s)) = k"
  by (induction k arbitrary: s) (simp_all add: case_prod_beta)

lemma choices_subset:
  assumes "rb_ok rb" and "seq \<noteq> []"
  shows "set (fst (choices rb seq k s)) \<subseteq> set seq"
proof (induction k arbitrary: s)
  case 0
  show ?case by simp
next
  case (Suc k)
  obtain c s' where c: "choice rb seq s = (c, s')" by (cases "choice rb seq s")
  obtain cs s'' where cs: "choices rb seq k s' = (cs, s'')" by (cases "choices rb seq k s'")
  have "c \<in> set seq" using choice_mem [OF assms, of s] c by simp
  moreover have "set cs \<subseteq> set seq" using Suc.IH [of s'] cs by simp
  ultimately show ?case by (simp add: c cs)
qed

lemma shuffle_step_length: "length (fst (shuffle_step rb i (x, s))) = length x"
  by (simp add: shuffle_step_def case_prod_beta)

lemma shuffle_step_mset:
  assumes "rb_ok rb" and "i < length x"
  shows "mset (fst (shuffle_step rb i (x, s))) = mset x"
proof -
  have "fst (rb (i + 1) s) < i + 1" using assms(1) by (simp add: rb_okD)
  then have "fst (rb (i + 1) s) < length x" using assms(2) by simp
  then show ?thesis
    using assms(2) mset_swap [of "fst (rb (i + 1) s)" x i]
    by (simp add: shuffle_step_def case_prod_beta)
qed

lemma fold_shuffle_length:
  "length (fst (fold (shuffle_step rb) js (x, s))) = length x"
proof (induction js arbitrary: x s)
  case Nil
  show ?case by simp
next
  case (Cons j js)
  obtain x' s' where st: "shuffle_step rb j (x, s) = (x', s')"
    by (cases "shuffle_step rb j (x, s)")
  have "length x' = length x" using shuffle_step_length [of rb j x s] st by simp
  then show ?case using Cons.IH [of x' s'] by (simp add: st)
qed

lemma fold_shuffle_mset:
  assumes "rb_ok rb"
  shows "\<forall>j \<in> set js. j < length x \<Longrightarrow> mset (fst (fold (shuffle_step rb) js (x, s))) = mset x"
proof (induction js arbitrary: x s)
  case Nil
  show ?case by simp
next
  case (Cons j js)
  obtain x' s' where st: "shuffle_step rb j (x, s) = (x', s')"
    by (cases "shuffle_step rb j (x, s)")
  have len: "length x' = length x" using shuffle_step_length [of rb j x s] st by simp
  have ms: "mset x' = mset x"
    using shuffle_step_mset [OF assms, of j x s] Cons.prems st by simp
  have "mset (fst (fold (shuffle_step rb) js (x', s'))) = mset x'"
    using Cons.IH [of x' s'] Cons.prems len by simp
  then show ?case by (simp add: st ms)
qed

lemma shuffle_length: "length (fst (shuffle rb x s)) = length x"
  by (simp add: shuffle_def fold_shuffle_length)

lemma shuffle_mset:
  assumes "rb_ok rb"
  shows "mset (fst (shuffle rb x s)) = mset x"
  unfolding shuffle_def by (rule fold_shuffle_mset [OF assms]) simp

lemma shuffle_set:
  assumes "rb_ok rb"
  shows "set (fst (shuffle rb x s)) = set x"
  using shuffle_mset [OF assms, of x s] by (rule mset_eq_setD)

section \<open>Facts about the generator of passwords\<close>

lemma list_all2_pick_right:
  "list_all2 P xs ys \<Longrightarrow> x \<in> set xs \<Longrightarrow> \<exists>y \<in> set ys. P x y"
  by (induction rule: list_all2_induct) auto

lemma list_all2_pick_left:
  "list_all2 P xs ys \<Longrightarrow> y \<in> set ys \<Longrightarrow> \<exists>x \<in> set xs. P x y"
  by (induction rule: list_all2_induct) auto

lemma char_pool_all_chars: "set (fst (char_pool rb strength s)) = universe strength"
  by (simp add: char_pool_def universe_def universe_classes_def CHAR_SETS_at
      case_prod_beta Let_def Un_assoc)

lemma char_pool_guaranteed_length:
  "length (fst (snd (char_pool rb strength s))) = length (guaranteed_classes strength)"
  by (simp add: char_pool_def guaranteed_classes_def case_prod_beta Let_def)

lemma char_pool_guaranteed_classes:
  assumes "rb_ok rb"
  shows "list_all2 (\<lambda>c k. c \<in> set (the (CHAR_SETS k)))
           (fst (snd (char_pool rb strength s))) (guaranteed_classes strength)"
  using assms
  by (simp add: char_pool_def guaranteed_classes_def case_prod_beta Let_def CHAR_SETS_at
      choice_mem alphabets_nonempty)

lemma universe_classes_guaranteed:
  "set (guaranteed_classes strength) \<subseteq> set (universe_classes strength)"
  by (auto simp: guaranteed_classes_def universe_classes_def)

lemma char_pool_guaranteed_subset:
  assumes "rb_ok rb"
  shows "set (fst (snd (char_pool rb strength s))) \<subseteq> universe strength"
proof
  fix c
  assume "c \<in> set (fst (snd (char_pool rb strength s)))"
  then obtain k where "k \<in> set (guaranteed_classes strength)" "c \<in> set (the (CHAR_SETS k))"
    using list_all2_pick_right [OF char_pool_guaranteed_classes [OF assms, of strength s]]
    by blast
  then show "c \<in> universe strength"
    using universe_classes_guaranteed [of strength] by (auto simp: universe_def)
qed

lemma char_pool_nonempty: "fst (char_pool rb strength s) \<noteq> []"
  by (simp add: char_pool_def CHAR_SETS_at case_prod_beta Let_def alphabets_nonempty)

lemma generate_password_too_short:
  assumes "len < int (length (guaranteed_classes strength))"
  shows "generate_password rb len strength s = (length_error, snd (snd (char_pool rb strength s)))"
  using assms char_pool_guaranteed_length [of rb strength s]
  by (simp add: generate_password_def case_prod_beta)

lemma generate_password_long_enough:
  assumes "int (length (guaranteed_classes strength)) \<le> len"
  shows "generate_password rb len strength s =
           (case char_pool rb strength s of (all_chars, guaranteed_chars, s1) \<Rightarrow>
              case choices rb all_chars (nat (len - int (length guaranteed_chars))) s1
              of (random_chars, s2) \<Rightarrow> shuffle rb (guaranteed_chars @ random_chars) s2)"
  using assms char_pool_guaranteed_length [of rb strength s]
  by (simp add: generate_password_def case_prod_beta Let_def)

lemma generate_password_length:
  assumes "int (length (guaranteed_classes strength)) \<le> len"
  shows "int (length (fst (generate_password rb len strength s))) = len"
  using assms char_pool_guaranteed_length [of rb strength s]
  by (simp add: generate_password_long_enough case_prod_beta shuffle_length choices_length)

lemma generate_password_mset:
  assumes "rb_ok rb" and "int (length (guaranteed_classes strength)) \<le> len"
  shows "\<exists>random_chars. set random_chars \<subseteq> universe strength \<and>
           mset (fst (generate_password rb len strength s)) =
             mset (fst (snd (char_pool rb strength s)) @ random_chars)"
proof -
  obtain all_chars guaranteed_chars s1
    where cp: "char_pool rb strength s = (all_chars, guaranteed_chars, s1)"
    by (cases "char_pool rb strength s")
  obtain random_chars s2
    where ch: "choices rb all_chars (nat (len - int (length guaranteed_chars))) s1 = (random_chars, s2)"
    by (cases "choices rb all_chars (nat (len - int (length guaranteed_chars))) s1")
  have "all_chars \<noteq> []" using char_pool_nonempty [of rb strength s] cp by simp
  then have "set random_chars \<subseteq> set all_chars"
    using choices_subset [OF assms(1), of all_chars "nat (len - int (length guaranteed_chars))" s1] ch
    by simp
  moreover have "set all_chars = universe strength"
    using char_pool_all_chars [of rb strength s] cp by simp
  moreover have "mset (fst (generate_password rb len strength s)) =
      mset (guaranteed_chars @ random_chars)"
    by (simp add: generate_password_long_enough [OF assms(2)] cp ch shuffle_mset [OF assms(1)])
  ultimately show ?thesis using cp by auto
qed

lemma generate_password_chars:
  assumes "rb_ok rb" and "int (length (guaranteed_classes strength)) \<le> len"
  shows "set (fst (generate_password rb len strength s)) \<subseteq> universe strength"
proof -
  obtain random_chars where r: "set random_chars \<subseteq> universe strength"
    and m: "mset (fst (generate_password rb len strength s)) =
             mset (fst (snd (char_pool rb strength s)) @ random_chars)"
    using generate_password_mset [OF assms] by blast
  have "set (fst (generate_password rb len strength s)) =
        set (fst (snd (char_pool rb strength s)) @ random_chars)"
    using m by (rule mset_eq_setD)
  then show ?thesis
    using r char_pool_guaranteed_subset [OF assms(1), of strength s] by simp
qed

lemma generate_password_guaranteed:
  assumes "rb_ok rb" and "int (length (guaranteed_classes strength)) \<le> len"
    and "k \<in> set (guaranteed_classes strength)"
  shows "\<exists>c \<in> set (fst (generate_password rb len strength s)). c \<in> set (the (CHAR_SETS k))"
proof -
  obtain random_chars where
    m: "mset (fst (generate_password rb len strength s)) =
             mset (fst (snd (char_pool rb strength s)) @ random_chars)"
    using generate_password_mset [OF assms(1,2)] by blast
  have s: "set (fst (generate_password rb len strength s)) =
        set (fst (snd (char_pool rb strength s)) @ random_chars)"
    using m by (rule mset_eq_setD)
  obtain c where "c \<in> set (fst (snd (char_pool rb strength s)))" "c \<in> set (the (CHAR_SETS k))"
    using list_all2_pick_left [OF char_pool_guaranteed_classes [OF assms(1), of strength s] assms(3)]
    by blast
  then show ?thesis using s by auto
qed

lemma space_not_in_universe: "CHR '' '' \<notin> universe strength"
  by (simp add: universe_def universe_classes_def CHAR_SETS_at
      ascii_uppercase_def ascii_lowercase_def digits_def punctuation_def)

lemma space_in_length_error: "CHR '' '' \<in> set length_error"
  by (simp add: length_error_def)

lemma generate_password_not_error:
  assumes "rb_ok rb" and "int (length (guaranteed_classes strength)) \<le> len"
  shows "fst (generate_password rb len strength s) \<noteq> length_error"
  using generate_password_chars [OF assms, of s] space_not_in_universe [of strength]
    space_in_length_error by auto

lemma rb_ok_counter_rng: "rb_ok counter_rng"
  by (simp add: rb_ok_def counter_rng_def)

lemma guaranteed_classes_tiers:
  "guaranteed_classes ''low'' = []"
  "guaranteed_classes ''medium'' = [''uppercase'', ''lowercase'', ''digits'']"
  "guaranteed_classes ''high'' = [''uppercase'', ''lowercase'', ''digits'', ''special_chars'']"
  by (simp_all add: guaranteed_classes_def)

lemma universe_tiers:
  "universe ''low'' = set ascii_uppercase \<union> set ascii_lowercase"
  "universe ''medium'' = set ascii_uppercase \<union> set ascii_lowercase \<union> set digits"
  "universe ''high'' = set ascii_uppercase \<union> set ascii_lowercase \<union> set digits \<union> set punctuation"
  by (simp_all add: universe_def universe_classes_def CHAR_SETS_at Un_assoc)

lemma punctuation_not_in_medium: "universe ''medium'' \<inter> set punctuation = {}"
  by (simp add: universe_tiers ascii_uppercase_def ascii_lowercase_def digits_def punctuation_def)

lemma as_password_result_Password:
  "r \<noteq> length_error \<Longrightarrow> as_password_result r = Password r"
  by (simp add: as_password_result_def)

lemma as_password_result_Rejected:
  "as_password_result r = Rejected e \<longleftrightarrow> r = length_error \<and> e = InsufficientLength"
  by (auto simp: as_password_result_def)

lemma as_password_result_PasswordD:
  "as_password_result r = Password p \<Longrightarrow> r \<noteq> length_error \<and> p = r"
  by (auto simp: as_password_result_def split: if_splits)

lemma counter_run_medium: "generate_password counter_rng 5 ''medium'' 0 = (''D7fkY'', 9)"
  by code_simp

lemma counter_run_high: "generate_password counter_rng 4 ''high'' 0 = (''Dk7]'', 7)"
  by code_simp

lemma counter_run_short: "generate_password counter_rng 2 ''high'' 0 = (length_error, 4)"
  by code_simp

lemma counter_run_unknown: "generate_password counter_rng 5 ''bogus'' 0 = (''DRfKY'', 9)"
  by code_simp

lemma length_error_neq_runs:
  "''D7fkY'' \<noteq> length_error" "''Dk7]'' \<noteq> length_error" "''DRfKY'' \<noteq> length_error"
  by (simp_all add: length_error_def)

lemma choice_counting:
  "choice (counting rb) seq (s, k) = (fst (choice rb seq s), (snd (choice rb seq s), Suc k))"
  by (simp add: choice_def counting_def case_prod_beta)

lemma choices_counting:
  "choices (counting rb) seq n (s, k) =
     (fst (choices rb seq n s), (snd (choices rb seq n s), k + n))"
proof (induction n arbitrary: s k)
  case 0
  show ?case by simp
next
  case (Suc n)
  show ?case
    by (simp add: choice_counting Suc.IH case_prod_beta)
qed

lemma shuffle_step_counting:
  "shuffle_step (counting rb) i (x, (s, k)) =
     (fst (shuffle_step rb i (x, s)), (snd (shuffle_step rb i (x, s)), Suc k))"
  by (simp add: shuffle_step_def counting_def case_prod_beta)

lemma fold_shuffle_counting:
  "fold (shuffle_step (counting rb)) js (x, (s, k)) =
     (fst (fold (shuffle_step rb) js (x, s)),
      (snd (fold (shuffle_step rb) js (x, s)), k + length js))"
proof (induction js arbitrary: x s k)
  case Nil
  show ?case by simp
next
  case (Cons j js)
  obtain x' s' where st: "shuffle_step rb j (x, s) = (x', s')"
    by (cases "shuffle_step rb j (x, s)")
  show ?case
    by (simp add: shuffle_step_counting st Cons.IH)
qed

lemma shuffle_counting:
  "shuffle (counting rb) x (s, k) =
     (fst (shuffle rb x s), (snd (shuffle rb x s), k + (length x - 1)))"
  by (simp add: shuffle_def fold_shuffle_counting)

lemma char_pool_counting:
  "char_pool (counting rb) strength (s, k) =
     (fst (char_pool rb strength s), fst (snd (char_pool rb strength s)),
      (snd (snd (char_pool rb strength s)), k + length (guaranteed_classes strength)))"
  by (simp add: char_pool_def guaranteed_classes_def choice_counting case_prod_beta Let_def)

lemma generate_password_counting_short:
  assumes "len < int (length (guaranteed_classes strength))"
  shows "generate_password (counting rb) len strength (s, k) =
           (fst (generate_password rb len strength s),
            (snd (generate_password rb len strength s), k + length (guaranteed_classes strength)))"
  by (simp add: generate_password_too_short [OF assms] char_pool_counting)

lemma generate_password_counting_long:
  assumes "int (length (guaranteed_classes strength)) \<le> len"
  shows "generate_password (counting rb) len strength (s, k) =
           (fst (generate_password rb len strength s),
            (snd (generate_password rb len strength s),
             k + length (guaranteed_classes strength)
               + nat (len - int (length (guaranteed_classes strength)))
               + (nat len - 1)))"
proof -
  obtain all_chars guaranteed_chars s1
    where cp: "char_pool rb strength s = (all_chars, guaranteed_chars, s1)"
    by (cases "char_pool rb strength s")
  have g: "length guaranteed_chars = length (guaranteed_classes strength)"
    using char_pool_guaranteed_length [of rb strength s] cp by simp
  obtain random_chars s2
    where ch: "choices rb all_chars (nat (len - int (length (guaranteed_classes strength)))) s1
                 = (random_chars, s2)"
    by (cases "choices rb all_chars (nat (len - int (length (guaranteed_classes strength)))) s1")
  have r: "length random_chars = nat (len - int (length (guaranteed_classes strength)))"
    using choices_length [of rb all_chars "nat (len - int (length (guaranteed_classes strength)))" s1] ch
    by simp
  have tot: "length (guaranteed_classes strength) + length random_chars = nat len"
    using assms r by simp
  show ?thesis
    by (simp add: generate_password_long_enough [OF assms] char_pool_counting cp g
        choices_counting ch shuffle_counting tot)
qed

lemma char_pool_unknown:
  assumes "strength \<notin> {''low'', ''medium'', ''high''}"
  shows "char_pool rb strength s = char_pool rb ''low'' s"
  using assms by (simp add: char_pool_def)

lemma char_pool_low: "char_pool rb ''low'' s = (ascii_uppercase @ ascii_lowercase, [], s)"
  by (simp add: char_pool_def CHAR_SETS_at)

lemma guaranteed_classes_unknown:
  "strength \<notin> {''low'', ''medium'', ''high''} \<Longrightarrow> guaranteed_classes strength = []"
  by (simp add: guaranteed_classes_def)

lemma universe_unknown:
  "strength \<notin> {''low'', ''medium'', ''high''} \<Longrightarrow>
     universe strength = set ascii_uppercase \<union> set ascii_lowercase"
  by (simp add: universe_def universe_classes_def CHAR_SETS_at)

lemma counter_run_negative: "generate_password counter_rng (- 1) ''low'' 0 = (length_error, 0)"
  by code_simp

lemma counter_run_zero_medium: "generate_password counter_rng 0 ''medium'' 0 = (length_error, 3)"
  by code_simp

lemma alphabet_lengths:
  "length ascii_uppercase = 26" "length ascii_lowercase = 26"
  "length digits = 10" "length punctuation = 32"
  by code_simp+

lemma char_pool_state_medium:
  "snd (snd (char_pool rb ''medium'' s)) = snd (rb 10 (snd (rb 26 (snd (rb 26 s)))))"
  by (simp add: char_pool_def choice_def CHAR_SETS_at case_prod_beta alphabet_lengths)

lemma char_pool_state_high:
  "snd (snd (char_pool rb ''high'' s)) = snd (rb 32 (snd (rb 10 (snd (rb 26 (snd (rb 26 s)))))))"
  by (simp add: char_pool_def choice_def CHAR_SETS_at case_prod_beta alphabet_lengths)

lemma generate_password_fallthrough:
  assumes "strength \<notin> {''low'', ''medium'', ''high''}"
  shows "generate_password rb len strength s = generate_password rb len ''low'' s"
  by (simp add: generate_password_def char_pool_unknown [OF assms])

section \<open>The claims\<close>

text \<open>
  C1. For each of the three tiers and every length that is non-negative and at least
  the number of guaranteed classes of the tier, the call succeeds and the password it
  returns has exactly \<open>length\<close> characters.
\<close>

theorem generate_password_exact_length:
  assumes "rb_ok rb"
    and "strength \<in> {''low'', ''medium'', ''high''}"
    and "0 \<le> len"
    and "int (length (guaranteed_classes strength)) \<le> len"
  shows "\<exists>p. as_password_result (fst (generate_password rb len strength s)) = Password p
           \<and> int (length p) = len"
  using generate_password_not_error [OF assms(1,4), of s]
    generate_password_length [OF assms(4), of rb s]
  by (simp add: as_password_result_Password)

theorem generate_password_exact_length_witness:
  "rb_ok counter_rng \<and> ''medium'' \<in> {''low'', ''medium'', ''high''} \<and> (0::int) \<le> 5
     \<and> int (length (guaranteed_classes ''medium'')) \<le> 5
     \<and> (\<exists>p. as_password_result (fst (generate_password counter_rng 5 ''medium'' (0::nat))) = Password p
           \<and> int (length p) = 5)"
proof -
  have h1: "''medium'' \<in> {''low'', ''medium'', ''high''}" by simp
  have h2: "(0::int) \<le> 5" by simp
  have h3: "int (length (guaranteed_classes ''medium'')) \<le> 5"
    by (simp add: guaranteed_classes_tiers)
  show ?thesis
    using generate_password_exact_length [OF rb_ok_counter_rng h1 h2 h3, of 0]
      rb_ok_counter_rng h3 by simp
qed

text \<open>
  C2. For every valid input, each class guaranteed by the tier has a character in the
  output: an uppercase letter, a lowercase letter and a digit for medium, and also a
  special character for high; low guarantees no class.
\<close>

theorem generate_password_covers_guaranteed:
  assumes "rb_ok rb"
    and "strength \<in> {''low'', ''medium'', ''high''}"
    and "int (length (guaranteed_classes strength)) \<le> len"
  shows "(\<forall>k \<in> set (guaranteed_classes strength).
            \<exists>c \<in> set (fst (generate_password rb len strength s)). c \<in> set (the (CHAR_SETS k)))
         \<and> (strength = ''medium'' \<or> strength = ''high'' \<longrightarrow>
              (\<exists>c \<in> set (fst (generate_password rb len strength s)). c \<in> set ascii_uppercase)
            \<and> (\<exists>c \<in> set (fst (generate_password rb len strength s)). c \<in> set ascii_lowercase)
            \<and> (\<exists>c \<in> set (fst (generate_password rb len strength s)). c \<in> set digits))
         \<and> (strength = ''high'' \<longrightarrow>
              (\<exists>c \<in> set (fst (generate_password rb len strength s)). c \<in> set punctuation))
         \<and> (strength = ''low'' \<longrightarrow> guaranteed_classes strength = [])"
proof -
  have all: "\<forall>k \<in> set (guaranteed_classes strength).
            \<exists>c \<in> set (fst (generate_password rb len strength s)). c \<in> set (the (CHAR_SETS k))"
    using generate_password_guaranteed [OF assms(1,3), of _ s] by blast
  have mh: "(\<exists>c \<in> set (fst (generate_password rb len strength s)). c \<in> set ascii_uppercase)
            \<and> (\<exists>c \<in> set (fst (generate_password rb len strength s)). c \<in> set ascii_lowercase)
            \<and> (\<exists>c \<in> set (fst (generate_password rb len strength s)). c \<in> set digits)"
    if "strength = ''medium'' \<or> strength = ''high''"
  proof -
    have "''uppercase'' \<in> set (guaranteed_classes strength)"
      "''lowercase'' \<in> set (guaranteed_classes strength)"
      "''digits'' \<in> set (guaranteed_classes strength)"
      using that by (auto simp: guaranteed_classes_tiers)
    then show ?thesis
      using generate_password_guaranteed [OF assms(1,3), of "''uppercase''" s]
        generate_password_guaranteed [OF assms(1,3), of "''lowercase''" s]
        generate_password_guaranteed [OF assms(1,3), of "''digits''" s]
      by (simp add: CHAR_SETS_at)
  qed
  have h: "\<exists>c \<in> set (fst (generate_password rb len strength s)). c \<in> set punctuation"
    if "strength = ''high''"
  proof -
    have "''special_chars'' \<in> set (guaranteed_classes strength)"
      using that by (simp add: guaranteed_classes_tiers)
    then show ?thesis
      using generate_password_guaranteed [OF assms(1,3), of "''special_chars''" s]
      by (simp add: CHAR_SETS_at)
  qed
  have l: "guaranteed_classes strength = []" if "strength = ''low''"
    using that by (simp add: guaranteed_classes_tiers)
  show ?thesis using all mh h l by blast
qed

theorem generate_password_covers_guaranteed_witness:
  "rb_ok counter_rng \<and> ''high'' \<in> {''low'', ''medium'', ''high''}
     \<and> int (length (guaranteed_classes ''high'')) \<le> 4
     \<and> (\<exists>c \<in> set (fst (generate_password counter_rng 4 ''high'' (0::nat))). c \<in> set ascii_uppercase)
     \<and> (\<exists>c \<in> set (fst (generate_password counter_rng 4 ''high'' (0::nat))). c \<in> set ascii_lowercase)
     \<and> (\<exists>c \<in> set (fst (generate_password counter_rng 4 ''high'' (0::nat))). c \<in> set digits)
     \<and> (\<exists>c \<in> set (fst (generate_password counter_rng 4 ''high'' (0::nat))). c \<in> set punctuation)"
proof -
  have h1: "''high'' \<in> {''low'', ''medium'', ''high''}" by simp
  have h2: "int (length (guaranteed_classes ''high'')) \<le> 4"
    by (simp add: guaranteed_classes_tiers)
  show ?thesis
    using generate_password_covers_guaranteed [OF rb_ok_counter_rng h1 h2, of 0]
      rb_ok_counter_rng h2 by simp
qed

text \<open>
  C3. For each of the three tiers and every length, every character of a successful
  output lies in the universe of the tier: letters only for low, letters and digits
  (so no punctuation) for medium, letters, digits and punctuation for high.
\<close>

theorem generate_password_within_universe:
  assumes "rb_ok rb"
    and "strength \<in> {''low'', ''medium'', ''high''}"
    and "as_password_result (fst (generate_password rb len strength s)) = Password p"
  shows "set p \<subseteq> universe strength
         \<and> (strength = ''low'' \<longrightarrow> set p \<subseteq> set ascii_uppercase \<union> set ascii_lowercase)
         \<and> (strength = ''medium'' \<longrightarrow>
              set p \<subseteq> set ascii_uppercase \<union> set ascii_lowercase \<union> set digits
              \<and> set p \<inter> set punctuation = {})
         \<and> (strength = ''high'' \<longrightarrow>
              set p \<subseteq> set ascii_uppercase \<union> set ascii_lowercase \<union> set digits \<union> set punctuation)"
proof -
  have p: "p = fst (generate_password rb len strength s)"
    and ne: "fst (generate_password rb len strength s) \<noteq> length_error"
    using as_password_result_PasswordD [OF assms(3)] by simp_all
  have "int (length (guaranteed_classes strength)) \<le> len"
  proof (rule ccontr)
    assume "\<not> int (length (guaranteed_classes strength)) \<le> len"
    then have "len < int (length (guaranteed_classes strength))" by simp
    then show False using generate_password_too_short [of len strength rb s] ne by simp
  qed
  then have sub: "set p \<subseteq> universe strength"
    using generate_password_chars [OF assms(1), of strength len s] p by simp
  have "set p \<inter> set punctuation = {}" if "strength = ''medium''"
    using sub that punctuation_not_in_medium by auto
  then show ?thesis using sub by (auto simp: universe_tiers)
qed

theorem generate_password_within_universe_witness:
  "rb_ok counter_rng \<and> ''medium'' \<in> {''low'', ''medium'', ''high''}
     \<and> as_password_result (fst (generate_password counter_rng 5 ''medium'' (0::nat))) = Password ''D7fkY''
     \<and> set ''D7fkY'' \<subseteq> universe ''medium''
     \<and> set ''D7fkY'' \<subseteq> set ascii_uppercase \<union> set ascii_lowercase \<union> set digits
     \<and> set ''D7fkY'' \<inter> set punctuation = {}"
proof -
  have h1: "''medium'' \<in> {''low'', ''medium'', ''high''}" by simp
  have h2: "as_password_result (fst (generate_password counter_rng 5 ''medium'' (0::nat))) = Password ''D7fkY''"
    by (simp add: counter_run_medium as_password_result_Password length_error_neq_runs)
  show ?thesis
    using generate_password_within_universe [OF rb_ok_counter_rng h1 h2] rb_ok_counter_rng h2
    by simp
qed

text \<open>
  C4. For each of the three tiers and every non-negative length, the call fails with
  InsufficientLength exactly when the length is below the number of guaranteed classes
  of the tier.
\<close>

theorem generate_password_insufficient_iff:
  assumes "rb_ok rb"
    and "strength \<in> {''low'', ''medium'', ''high''}"
    and "0 \<le> len"
  shows "as_password_result (fst (generate_password rb len strength s)) = Rejected InsufficientLength
         \<longleftrightarrow> len < int (length (guaranteed_classes strength))"
proof (cases "len < int (length (guaranteed_classes strength))")
  case True
  then show ?thesis
    by (simp add: generate_password_too_short as_password_result_Rejected)
next
  case False
  then have "int (length (guaranteed_classes strength)) \<le> len" by simp
  then have "fst (generate_password rb len strength s) \<noteq> length_error"
    by (rule generate_password_not_error [OF assms(1)])
  then show ?thesis using False by (simp add: as_password_result_Rejected)
qed

theorem generate_password_insufficient_iff_witness:
  "rb_ok counter_rng \<and> ''high'' \<in> {''low'', ''medium'', ''high''} \<and> (0::int) \<le> 2
     \<and> as_password_result (fst (generate_password counter_rng 2 ''high'' (0::nat))) = Rejected InsufficientLength
     \<and> (2::int) < int (length (guaranteed_classes ''high''))"
proof -
  have h1: "''high'' \<in> {''low'', ''medium'', ''high''}" by simp
  have h2: "(0::int) \<le> 2" by simp
  have h3: "(2::int) < int (length (guaranteed_classes ''high''))"
    by (simp add: guaranteed_classes_tiers)
  show ?thesis
    using generate_password_insufficient_iff [OF rb_ok_counter_rng h1 h2, of 0]
      rb_ok_counter_rng h3 by simp
qed

text \<open>
  C5 (as the code has it). For each of the three tiers and every length \<open>\<le> 0\<close>, except
  length 0 at low, the call returns no password: it returns the too-short message of
  the one length check, the failure that reads as InsufficientLength. The code has no
  separate InvalidLength rejection.
\<close>

theorem generate_password_nonpositive_rejected:
  assumes "strength \<in> {''low'', ''medium'', ''high''}"
    and "len \<le> 0"
    and "\<not> (len = 0 \<and> strength = ''low'')"
  shows "fst (generate_password rb len strength s) = length_error
         \<and> as_password_result (fst (generate_password rb len strength s))
             = Rejected InsufficientLength"
proof -
  have "len < int (length (guaranteed_classes strength))"
    using assms by (auto simp: guaranteed_classes_tiers)
  then show ?thesis
    by (simp add: generate_password_too_short as_password_result_Rejected)
qed

theorem generate_password_nonpositive_rejected_witness:
  "''medium'' \<in> {''low'', ''medium'', ''high''} \<and> (0::int) \<le> 0
     \<and> ''medium'' \<noteq> ''low''
     \<and> fst (generate_password counter_rng 0 ''medium'' (0::nat)) = length_error
     \<and> as_password_result (fst (generate_password counter_rng 0 ''medium'' (0::nat)))
         = Rejected InsufficientLength"
proof -
  have h1: "''medium'' \<in> {''low'', ''medium'', ''high''}" by simp
  have h2: "(0::int) \<le> 0" by simp
  have h3: "\<not> ((0::int) = 0 \<and> ''medium'' = ''low'')" by simp
  show ?thesis
    using generate_password_nonpositive_rejected [OF h1 h2 h3, of counter_rng 0] by auto
qed

text \<open>
  C5 as stated fails: length \<open>-1\<close> at low is answered with the too-short message,
  which reads as InsufficientLength and not as InvalidLength.
\<close>

theorem generate_password_negative_low_not_invalid:
  "fst (generate_password counter_rng (- 1) ''low'' (0::nat))
     = ''Error: Length too short for selected strength.''
   \<and> as_password_result (fst (generate_password counter_rng (- 1) ''low'' (0::nat)))
       \<noteq> Rejected InvalidLength"
  by (simp add: counter_run_negative as_password_result_def) (simp add: length_error_def)

text \<open>
  C6 (as the code has it). When the length is below the number of guaranteed classes,
  the returned value is the too-short message whatever the generator and its state.
  The guaranteed characters are drawn before the length check, so the random source is
  advanced by one draw per guaranteed class (three for medium, four for high, none
  otherwise) and by nothing else.
\<close>

theorem generate_password_short_input_only:
  assumes "len < int (length (guaranteed_classes strength))"
  shows "fst (generate_password rb len strength s) = length_error
         \<and> fst (generate_password rb len strength s) = fst (generate_password rb' len strength s')
         \<and> snd (generate_password rb len strength s) = snd (snd (char_pool rb strength s))
         \<and> snd (snd (generate_password (counting rb) len strength (s, 0)))
             = length (guaranteed_classes strength)
         \<and> (strength = ''medium'' \<longrightarrow> snd (generate_password rb len strength s)
               = snd (rb 10 (snd (rb 26 (snd (rb 26 s))))))
         \<and> (strength = ''high'' \<longrightarrow> snd (generate_password rb len strength s)
               = snd (rb 32 (snd (rb 10 (snd (rb 26 (snd (rb 26 s))))))))"
proof -
  have r: "generate_password rb len strength s = (length_error, snd (snd (char_pool rb strength s)))"
    and r': "generate_password rb' len strength s' = (length_error, snd (snd (char_pool rb' strength s')))"
    by (rule generate_password_too_short [OF assms])+
  have c: "snd (snd (generate_password (counting rb) len strength (s, 0)))
             = length (guaranteed_classes strength)"
    by (simp add: generate_password_counting_short [OF assms])
  have m: "snd (generate_password rb len strength s)
             = snd (rb 10 (snd (rb 26 (snd (rb 26 s)))))" if "strength = ''medium''"
    using r char_pool_state_medium [of rb s] unfolding that by simp
  have h: "snd (generate_password rb len strength s)
             = snd (rb 32 (snd (rb 10 (snd (rb 26 (snd (rb 26 s)))))))" if "strength = ''high''"
    using r char_pool_state_high [of rb s] unfolding that by simp
  have "fst (generate_password rb len strength s) = length_error"
    "fst (generate_password rb len strength s) = fst (generate_password rb' len strength s')"
    "snd (generate_password rb len strength s) = snd (snd (char_pool rb strength s))"
    by (simp_all add: r r')
  then show ?thesis using c m h by blast
qed

theorem generate_password_short_input_only_witness:
  "(2::int) < int (length (guaranteed_classes ''high''))
   \<and> fst (generate_password counter_rng 2 ''high'' (0::nat)) = length_error
   \<and> fst (generate_password counter_rng 2 ''high'' (0::nat))
       = fst (generate_password counter_rng 2 ''high'' (5::nat))
   \<and> snd (snd (generate_password (counting counter_rng) 2 ''high'' (0::nat, 0))) = 4
   \<and> snd (generate_password counter_rng 2 ''high'' (0::nat))
       = snd (counter_rng 32 (snd (counter_rng 10 (snd (counter_rng 26 (snd (counter_rng 26 0)))))))"
proof -
  have h: "(2::int) < int (length (guaranteed_classes ''high''))"
    by (simp add: guaranteed_classes_tiers)
  show ?thesis
    using generate_password_short_input_only [OF h, of counter_rng 0 counter_rng 5] h
    by (auto simp: guaranteed_classes_tiers)
qed

text \<open>
  C6 as stated fails: on the failure path of length 2 at high the state of the random
  source has moved (four draws were made).
\<close>

theorem generate_password_short_consumes_randomness:
  "fst (generate_password counter_rng 2 ''high'' (0::nat)) = length_error
   \<and> snd (generate_password counter_rng 2 ''high'' (0::nat)) \<noteq> 0"
  by (simp add: counter_run_short)

text \<open>
  C7 (as the code has it). Every response is a string. Below the number of guaranteed
  classes it is the fixed too-short message; otherwise it is a password of the requested
  length over the universe, and never that message (the message has spaces, no alphabet
  has one). So the failure travels in the same string value as a password and a caller
  tells the two apart only by comparing with the message; InvalidLength never occurs.
\<close>

theorem generate_password_response_shape:
  assumes "rb_ok rb"
  shows "(len < int (length (guaranteed_classes strength)) \<longrightarrow>
            fst (generate_password rb len strength s) = length_error
            \<and> as_password_result (fst (generate_password rb len strength s))
                = Rejected InsufficientLength)
         \<and> (int (length (guaranteed_classes strength)) \<le> len \<longrightarrow>
            fst (generate_password rb len strength s) \<noteq> length_error
            \<and> as_password_result (fst (generate_password rb len strength s))
                = Password (fst (generate_password rb len strength s))
            \<and> int (length (fst (generate_password rb len strength s))) = len
            \<and> set (fst (generate_password rb len strength s)) \<subseteq> universe strength)
         \<and> as_password_result (fst (generate_password rb len strength s))
             \<noteq> Rejected InvalidLength"
proof -
  have short: "fst (generate_password rb len strength s) = length_error
            \<and> as_password_result (fst (generate_password rb len strength s))
                = Rejected InsufficientLength"
    if "len < int (length (guaranteed_classes strength))"
    using that by (simp add: generate_password_too_short as_password_result_Rejected)
  have long: "fst (generate_password rb len strength s) \<noteq> length_error
            \<and> as_password_result (fst (generate_password rb len strength s))
                = Password (fst (generate_password rb len strength s))
            \<and> int (length (fst (generate_password rb len strength s))) = len
            \<and> set (fst (generate_password rb len strength s)) \<subseteq> universe strength"
    if "int (length (guaranteed_classes strength)) \<le> len"
    using generate_password_not_error [OF assms that, of s]
      generate_password_length [OF that, of rb s]
      generate_password_chars [OF assms that, of s]
    by (simp add: as_password_result_Password)
  have "as_password_result (fst (generate_password rb len strength s)) \<noteq> Rejected InvalidLength"
    by (simp add: as_password_result_def)
  then show ?thesis using short long by blast
qed

theorem generate_password_response_shape_witness:
  "rb_ok counter_rng
   \<and> (2::int) < int (length (guaranteed_classes ''high''))
   \<and> fst (generate_password counter_rng 2 ''high'' (0::nat)) = length_error
   \<and> int (length (guaranteed_classes ''medium'')) \<le> 5
   \<and> fst (generate_password counter_rng 5 ''medium'' (0::nat)) \<noteq> length_error
   \<and> int (length (fst (generate_password counter_rng 5 ''medium'' (0::nat)))) = 5
   \<and> set (fst (generate_password counter_rng 5 ''medium'' (0::nat))) \<subseteq> universe ''medium''"
proof -
  have h1: "(2::int) < int (length (guaranteed_classes ''high''))"
    by (simp add: guaranteed_classes_tiers)
  have h2: "int (length (guaranteed_classes ''medium'')) \<le> 5"
    by (simp add: guaranteed_classes_tiers)
  show ?thesis
    using generate_password_response_shape [OF rb_ok_counter_rng, of 2 "''high''" 0]
      generate_password_response_shape [OF rb_ok_counter_rng, of 5 "''medium''" 0]
      rb_ok_counter_rng h1 h2
    by blast
qed

text \<open>
  C7 as stated fails: the failure for length 2 at high is returned as an ordinary
  string, the 46 characters of the message, through the value that carries passwords.
\<close>

theorem generate_password_failure_in_band:
  "fst (generate_password counter_rng 2 ''high'' (0::nat))
     = ''Error: Length too short for selected strength.''
   \<and> length (fst (generate_password counter_rng 2 ''high'' (0::nat))) = 46"
  by (simp add: counter_run_short length_error_def)

text \<open>
  C8. At length 0 the low tier succeeds with the empty string (and draws nothing).
\<close>

theorem generate_password_zero_low:
  "generate_password rb 0 ''low'' s = ([], s)
   \<and> as_password_result (fst (generate_password rb 0 ''low'' s)) = Password []"
  by (simp add: generate_password_def char_pool_def shuffle_def as_password_result_def
      length_error_def Let_def)

text \<open>
  C9. The embedding is a total function of any length and any strength: every call
  returns. Counting the draws with the instrumented generator (which changes neither
  the result nor the state), a failing call makes one draw per guaranteed class, and a
  successful one adds \<open>length - |guaranteed|\<close> filler draws and \<open>length - 1\<close>
  exchanges of the shuffle (none for the empty list): at most \<open>|guaranteed| + 2 * length\<close>
  draws in all.
\<close>

theorem generate_password_terminates_linear:
  "\<exists>p s' n. generate_password (counting rb) len strength (s, 0) = (p, (s', n))
     \<and> generate_password rb len strength s = (p, s')
     \<and> n = (if len < int (length (guaranteed_classes strength))
            then length (guaranteed_classes strength)
            else length (guaranteed_classes strength)
                 + nat (len - int (length (guaranteed_classes strength)))
                 + (nat len - 1))
     \<and> n \<le> length (guaranteed_classes strength) + 2 * nat len"
proof (cases "len < int (length (guaranteed_classes strength))")
  case True
  then show ?thesis by (simp add: generate_password_counting_short)
next
  case False
  then have "int (length (guaranteed_classes strength)) \<le> len" by simp
  then show ?thesis by (simp add: generate_password_counting_long)
qed

text \<open>
  C10. A strength that is none of the three names is accepted and treated as low: the
  pool is the upper and lower case letters, nothing is guaranteed, and for every
  length \<open>\<ge> 0\<close> the call does not fail and returns exactly \<open>length\<close> letters.
\<close>

theorem generate_password_unknown_strength:
  assumes "strength \<notin> {''low'', ''medium'', ''high''}"
    and "0 \<le> len"
    and "rb_ok rb"
  shows "generate_password rb len strength s = generate_password rb len ''low'' s
         \<and> char_pool rb strength s = (ascii_uppercase @ ascii_lowercase, [], s)
         \<and> as_password_result (fst (generate_password rb len strength s))
             \<noteq> Rejected InsufficientLength
         \<and> (\<exists>p. as_password_result (fst (generate_password rb len strength s)) = Password p
               \<and> int (length p) = len
               \<and> set p \<subseteq> set ascii_uppercase \<union> set ascii_lowercase)"
proof -
  have g: "int (length (guaranteed_classes strength)) \<le> len"
    using assms(1,2) by (simp add: guaranteed_classes_unknown)
  have ne: "fst (generate_password rb len strength s) \<noteq> length_error"
    by (rule generate_password_not_error [OF assms(3) g])
  have "set (fst (generate_password rb len strength s)) \<subseteq> set ascii_uppercase \<union> set ascii_lowercase"
    using generate_password_chars [OF assms(3) g, of s] universe_unknown [OF assms(1)] by simp
  then show ?thesis
    using ne generate_password_length [OF g, of rb s]
    by (simp add: generate_password_fallthrough [OF assms(1)] char_pool_unknown [OF assms(1)]
        char_pool_low as_password_result_def)
qed

theorem generate_password_unknown_strength_witness:
  "''bogus'' \<notin> {''low'', ''medium'', ''high''} \<and> (0::int) \<le> 5 \<and> rb_ok counter_rng
   \<and> generate_password counter_rng 5 ''bogus'' (0::nat) = generate_password counter_rng 5 ''low'' 0
   \<and> as_password_result (fst (generate_password counter_rng 5 ''bogus'' (0::nat)))
       \<noteq> Rejected InsufficientLength
   \<and> (\<exists>p. as_password_result (fst (generate_password counter_rng 5 ''bogus'' (0::nat))) = Password p
         \<and> int (length p) = 5
         \<and> set p \<subseteq> set ascii_uppercase \<union> set ascii_lowercase)"
proof -
  have h1: "''bogus'' \<notin> {''low'', ''medium'', ''high''}" by simp
  have h2: "(0::int) \<le> 5" by simp
  show ?thesis
    using generate_password_unknown_strength [OF h1 h2 rb_ok_counter_rng, of 0]
      rb_ok_counter_rng h1 h2
    by blast
qed

end
